theory Spec2Isabelle
  imports Complex_Main
begin

section \<open>Data model\<close>

text \<open>
  The gesture vocabulary of \<^verbatim>\<open>types.ts\<close>. The string values of the enum
  (\<^verbatim>\<open>'NONE'\<close>, \<^verbatim>\<open>'PUNCH'\<close>, \<^verbatim>\<open>'OPEN'\<close>, \<^verbatim>\<open>'PINCH'\<close>, \<^verbatim>\<open>'2_FINGERS'\<close>,
  \<^verbatim>\<open>'3_FINGERS'\<close>) are pairwise distinct and none of them is an array index, so as
  keys of a JavaScript object they are enumerated in insertion order.
\<close>

datatype GestureType = NONE | PUNCH | OPEN | PINCH | TWO_FINGERS | THREE_FINGERS

text \<open>
  A position is the \<^verbatim>\<open>{ x, y }\<close> object handed to \<^verbatim>\<open>onGestureDetected\<close>; a landmark
  has a depth \<^verbatim>\<open>z\<close> as well. A coordinate is a finite JavaScript number (IEEE 754
  binary64), and every such number is a real number: the model holds its value.
\<close>

record Position =
  x :: real
  y :: real

record Landmark = Position +
  z :: real

datatype error = TypeError

text \<open>
  The arithmetic of JavaScript numbers. Comparing two finite numbers is comparing their
  values, but a difference, a sum, a power and a square root are rounded to binary64,
  and a decimal literal such as \<^verbatim>\<open>0.02\<close> denotes the binary64 number next to it. The
  model does not fix the rounding: the operations the classifier uses and the value of
  a literal are parameters, and what is proved of the classifier is proved for every
  choice of them, the one the program runs with among them. Where a difference, a
  power or a sum overflows, the distance is \<^verbatim>\<open>Infinity\<close>; it is only compared with a
  literal and found not smaller, so any real above the literals stands for it.
\<close>

record Arith =
  num_sub :: "real \<Rightarrow> real \<Rightarrow> real"
  num_add :: "real \<Rightarrow> real \<Rightarrow> real"
  Math_pow :: "real \<Rightarrow> real \<Rightarrow> real"
  Math_sqrt :: "real \<Rightarrow> real"
  num_lit :: "real \<Rightarrow> real"

section \<open>The keypoint classifier (\<^verbatim>\<open>services/gestureRecognition.ts\<close>)\<close>

definition andThen :: "error + 'a \<Rightarrow> ('a \<Rightarrow> error + 'b) \<Rightarrow> error + 'b" where
  "andThen r f = (case r of Inl e \<Rightarrow> Inl e | Inr v \<Rightarrow> f v)"

text \<open>
  \<^verbatim>\<open>landmarks[i]\<close>. Out of range JavaScript yields \<^verbatim>\<open>undefined\<close>, and the first
  property access on it throws a TypeError. Every landmark that \<^verbatim>\<open>detectGesture\<close>
  reads is dereferenced before the function returns and nothing is written in between,
  so the model raises at the read.
\<close>

definition item :: "'a list \<Rightarrow> nat \<Rightarrow> error + 'a" where
  "item xs i = (if i < length xs then Inr (xs ! i) else Inl TypeError)"

definition getDistance :: "Arith \<Rightarrow> Landmark \<Rightarrow> Landmark \<Rightarrow> real" where
  "getDistance A a b =
    Math_sqrt A (num_add A (Math_pow A (num_sub A (x a) (x b)) 2)
                           (Math_pow A (num_sub A (y a) (y b)) 2))"

definition isExtended :: "Arith \<Rightarrow> Landmark \<Rightarrow> Landmark \<Rightarrow> bool" where
  "isExtended A tip mcp \<longleftrightarrow> y tip < num_sub A (y mcp) (num_lit A 0.02)"

text \<open>
  The argument is \<open>None\<close> for an absent (\<^verbatim>\<open>null\<close> or \<^verbatim>\<open>undefined\<close>) landmark set.
  The branches are in the order of the source.
\<close>

definition detectGesture :: "Arith \<Rightarrow> Landmark list option \<Rightarrow> error + GestureType" where
  "detectGesture A landmarks =
    (case landmarks of
       None \<Rightarrow> Inr NONE
     | Some ls \<Rightarrow>
         if length ls < 21 then Inr NONE
         else
           andThen (item ls 4) (\<lambda>thumbTip.
           andThen (item ls 8) (\<lambda>indexTip.
           andThen (item ls 12) (\<lambda>middleTip.
           andThen (item ls 16) (\<lambda>ringTip.
           andThen (item ls 20) (\<lambda>pinkyTip.
           andThen (item ls 5) (\<lambda>indexMcp.
           andThen (item ls 9) (\<lambda>middleMcp.
           andThen (item ls 13) (\<lambda>ringMcp.
           andThen (item ls 17) (\<lambda>pinkyMcp.
             let indexOpen = isExtended A indexTip indexMcp;
                 middleOpen = isExtended A middleTip middleMcp;
                 ringOpen = isExtended A ringTip ringMcp;
                 pinkyOpen = isExtended A pinkyTip pinkyMcp;
                 pinchDist = getDistance A thumbTip indexTip
             in
               if pinchDist < num_lit A 0.045 \<and> \<not> middleOpen \<and> \<not> ringOpen then Inr PINCH
               else if indexOpen \<and> middleOpen \<and> ringOpen \<and> \<not> pinkyOpen then Inr THREE_FINGERS
               else if indexOpen \<and> middleOpen \<and> \<not> ringOpen \<and> \<not> pinkyOpen then Inr TWO_FINGERS
               else
                 andThen (item ls 9) (\<lambda>palmCenter.
                   let tips = [indexTip, middleTip, ringTip, pinkyTip];
                       allClosed =
                         list_all (\<lambda>tip. getDistance A tip palmCenter < num_lit A 0.12) tips
                   in
                     if allClosed then Inr PUNCH
                     else
                       let extendedCount =
                             length (filter (\<lambda>b. b) [indexOpen, middleOpen, ringOpen, pinkyOpen])
                       in if extendedCount \<ge> 4 then Inr OPEN else Inr NONE)))))))))))"

text \<open>
  Exact arithmetic, for the sample hands below. Their coordinates are multiples of 1/16:
  on them the differences, squares, sums and square roots of the classifier are exact
  in binary64 as well, save for \<^verbatim>\<open>0.5 - 0.02\<close>, and the numbers compared lie more than
  0.01 apart, far beyond the rounding of that difference and of the literals. So the
  program takes the same branches on these hands as exact arithmetic does.
\<close>

definition exact :: Arith where
  "exact = \<lparr>num_sub = (\<lambda>a b. a - b), num_add = (\<lambda>a b. a + b),
             Math_pow = (\<lambda>b e. b ^ nat \<lfloor>e\<rfloor>), Math_sqrt = sqrt, num_lit = (\<lambda>v. v)\<rparr>"

text \<open>Sample hands: every landmark at the centre of the image, some fingertips raised.\<close>

definition centre :: Landmark where
  "centre = \<lparr>x = 1/2, y = 1/2, z = 0\<rparr>"

definition raised :: Landmark where
  "raised = \<lparr>x = 1/2, y = 7/16, z = 0\<rparr>"

definition fistHand :: "Landmark list" where
  "fistHand = replicate 21 centre"

definition fourUpHand :: "Landmark list" where
  "fourUpHand = (replicate 21 centre)[8 := raised, 12 := raised, 16 := raised, 20 := raised]"

definition threeUpHand :: "Landmark list" where
  "threeUpHand = (replicate 21 centre)[8 := raised, 12 := raised, 16 := raised]"

definition high :: Landmark where
  "high = \<lparr>x = 1/2, y = 1/4, z = 0\<rparr>"

definition openHand :: "Landmark list" where
  "openHand = (replicate 21 centre)[8 := high, 12 := high, 16 := high, 20 := high]"

section \<open>The temporal stabilizer (\<^verbatim>\<open>components/HandTracker.tsx\<close>, \<^verbatim>\<open>processResults\<close>)\<close>

definition BUFFER_SIZE :: nat where
  "BUFFER_SIZE = 3"

text \<open>
  \<^verbatim>\<open>gestureBuffer.current.push(rawGesture)\<close>, then \<^verbatim>\<open>shift()\<close> when the length
  exceeds \<^verbatim>\<open>BUFFER_SIZE\<close>.
\<close>

definition pushGesture :: "GestureType list \<Rightarrow> GestureType \<Rightarrow> GestureType list" where
  "pushGesture buf rawGesture =
    (let pushed = buf @ [rawGesture]
     in if length pushed > BUFFER_SIZE then tl pushed else pushed)"

text \<open>
  The accumulator of the \<^verbatim>\<open>reduce\<close> is a JavaScript object, whose own string keys are
  enumerated in the order of their insertion: an association list that keeps a key in
  place when its count grows and adds a new key at the end.
  \<^verbatim>\<open>acc[curr] = (acc[curr] || 0) + 1\<close>:
\<close>

fun increment :: "(GestureType \<times> nat) list \<Rightarrow> GestureType \<Rightarrow> (GestureType \<times> nat) list" where
  "increment [] g = [(g, 1)]"
| "increment ((k, c) # rest) g =
    (if k = g then (k, c + 1) # rest else (k, c) # increment rest g)"

definition mostFrequent :: "GestureType list \<Rightarrow> (GestureType \<times> nat) list" where
  "mostFrequent buf = foldl increment [] buf"

text \<open>
  \<^verbatim>\<open>entries.sort((a, b) => b[1] - a[1])\<close>: \<^verbatim>\<open>Array.prototype.sort\<close> is stable, and the
  comparator orders by descending count. \<^const>\<open>sort_key\<close> is a stable insertion sort;
  its key is the negated count.
\<close>

definition sortedEntries :: "(GestureType \<times> nat) list \<Rightarrow> (GestureType \<times> nat) list" where
  "sortedEntries entries = sort_key (\<lambda>e. - int (snd e)) entries"

text \<open>\<^verbatim>\<open>sortedEntries[0][0]\<close>; on an empty array \<^verbatim>\<open>sortedEntries[0]\<close> is undefined.\<close>

definition stableGesture :: "GestureType list \<Rightarrow> error + GestureType" where
  "stableGesture buf =
    (case sortedEntries (mostFrequent buf) of
       [] \<Rightarrow> Inl TypeError
     | e # _ \<Rightarrow> Inr (fst e))"

text \<open>One step of the stabilizer: lines 61 to 74 of \<^verbatim>\<open>processResults\<close>.\<close>

definition update :: "GestureType list \<Rightarrow> GestureType \<Rightarrow> GestureType list \<times> (error + GestureType)" where
  "update buf rawGesture = (let buf' = pushGesture buf rawGesture in (buf', stableGesture buf'))"

text \<open>Feeding raw labels one after the other; the outputs are collected in order.\<close>

fun feed :: "GestureType list \<Rightarrow> GestureType list \<Rightarrow> GestureType list \<times> (error + GestureType) list" where
  "feed buf [] = (buf, [])"
| "feed buf (g # gs) =
    (let (buf1, out) = update buf g;
         (buf2, outs) = feed buf1 gs
     in (buf2, out # outs))"

text \<open>
  The component's state: whether the canvas is mounted (\<^verbatim>\<open>canvasRef.current\<close>), whether
  it hands out a 2D context, and the gesture buffer. A result of the hand tracker has
  an image or not and \<^verbatim>\<open>multiHandLandmarks\<close>, absent or a list of hands.
\<close>

record Tracker =
  canvasCurrent :: bool
  canvasCtx :: bool
  gestureBuffer :: "GestureType list"

record Results =
  image :: bool
  multiHandLandmarks :: "Landmark list list option"

text \<open>
  What one call of \<^verbatim>\<open>processResults\<close> does besides drawing: it returns early, it calls
  \<^verbatim>\<open>onGestureDetected\<close> once, or it throws.
\<close>

datatype outcome = Returned | Delivered GestureType Position | Thrown error

text \<open>
  The drawing calls are left out; the loop over every fourth landmark reads inside the
  array only. \<^verbatim>\<open>landmarks[9].x\<close> throws when the hand has fewer than ten landmarks,
  before the buffer is touched. The literal \<^verbatim>\<open>0.5\<close> of the last branch is a binary64
  number itself.
\<close>

definition processResults :: "Arith \<Rightarrow> Tracker \<Rightarrow> Results \<Rightarrow> Tracker \<times> outcome" where
  "processResults A t results =
    (if \<not> canvasCurrent t \<or> \<not> image results then (t, Returned)
     else if \<not> canvasCtx t then (t, Returned)
     else
       case multiHandLandmarks results of
         Some (landmarks # others) \<Rightarrow>
           (case detectGesture A (Some landmarks) of
              Inl e \<Rightarrow> (t, Thrown e)
            | Inr rawGesture \<Rightarrow>
                (case item landmarks 9 of
                   Inl e \<Rightarrow> (t, Thrown e)
                 | Inr palm \<Rightarrow>
                     let (buf, stable) = update (gestureBuffer t) rawGesture;
                         t' = t\<lparr>gestureBuffer := buf\<rparr>
                     in
                       (case stable of
                          Inl e \<Rightarrow> (t', Thrown e)
                        | Inr g \<Rightarrow> (t', Delivered g \<lparr>x = x palm, y = y palm\<rparr>))))
       | _ \<Rightarrow> (t, Delivered NONE \<lparr>x = 0.5, y = 0.5\<rparr>))"

text \<open>A frame on which the tracker reports no hand.\<close>

definition noHand :: "Results \<Rightarrow> bool" where
  "noHand results \<longleftrightarrow> (case multiHandLandmarks results of None \<Rightarrow> True | Some hands \<Rightarrow> hands = [])"

text \<open>The canvas guards at the head of \<^verbatim>\<open>processResults\<close> let the frame through.\<close>

definition drawn :: "Tracker \<Rightarrow> Results \<Rightarrow> bool" where
  "drawn t results \<longleftrightarrow> canvasCurrent t \<and> image results \<and> canvasCtx t"

text \<open>Sample states and frames.\<close>

definition punchTracker :: Tracker where
  "punchTracker = \<lparr>canvasCurrent = True, canvasCtx = True, gestureBuffer = [PUNCH, PUNCH, PUNCH]\<rparr>"

definition emptyFrame :: Results where
  "emptyFrame = \<lparr>image = True, multiHandLandmarks = None\<rparr>"

definition fistFrame :: Results where
  "fistFrame = \<lparr>image = True, multiHandLandmarks = Some [fistHand]\<rparr>"

section \<open>Properties of the classifier\<close>

lemma getDistance_vertical: "x a = x b \<Longrightarrow> getDistance exact a b = \<bar>y a - y b\<bar>"
  by (simp add: getDistance_def exact_def)

lemma isExtended_exact: "isExtended exact tip mcp \<longleftrightarrow> y tip < y mcp - 0.02"
  by (simp add: isExtended_def exact_def)

lemma num_lit_exact: "num_lit exact v = v"
  by (simp add: exact_def)

lemma detectGesture_full:
  assumes "21 \<le> length ls"
  shows "detectGesture A (Some ls) =
    Inr (if getDistance A (ls ! 4) (ls ! 8) < num_lit A 0.045 \<and> \<not> isExtended A (ls ! 12) (ls ! 9)
            \<and> \<not> isExtended A (ls ! 16) (ls ! 13) then PINCH
         else if isExtended A (ls ! 8) (ls ! 5) \<and> isExtended A (ls ! 12) (ls ! 9)
            \<and> isExtended A (ls ! 16) (ls ! 13) \<and> \<not> isExtended A (ls ! 20) (ls ! 17) then THREE_FINGERS
         else if isExtended A (ls ! 8) (ls ! 5) \<and> isExtended A (ls ! 12) (ls ! 9)
            \<and> \<not> isExtended A (ls ! 16) (ls ! 13) \<and> \<not> isExtended A (ls ! 20) (ls ! 17) then TWO_FINGERS
         else if getDistance A (ls ! 8) (ls ! 9) < num_lit A 0.12 \<and> getDistance A (ls ! 12) (ls ! 9) < num_lit A 0.12
            \<and> getDistance A (ls ! 16) (ls ! 9) < num_lit A 0.12 \<and> getDistance A (ls ! 20) (ls ! 9) < num_lit A 0.12 then PUNCH
         else if isExtended A (ls ! 8) (ls ! 5) \<and> isExtended A (ls ! 12) (ls ! 9)
            \<and> isExtended A (ls ! 16) (ls ! 13) \<and> isExtended A (ls ! 20) (ls ! 17) then OPEN
         else NONE)"
  using assms by (simp add: detectGesture_def andThen_def item_def Let_def)

section \<open>Properties of the vote\<close>

lemma keys_increment:
  "map fst (increment es g) = (if g \<in> set (map fst es) then map fst es else map fst es @ [g])"
  by (induction es g rule: increment.induct) auto

lemma map_of_increment:
  "map_of (increment es g) k =
     (if k = g then Some (case map_of es g of None \<Rightarrow> 1 | Some c \<Rightarrow> c + 1) else map_of es k)"
  by (induction es g rule: increment.induct) auto

lemma mostFrequent_snoc: "mostFrequent (buf @ [g]) = increment (mostFrequent buf) g"
  by (simp add: mostFrequent_def)

lemma mostFrequent_Nil: "mostFrequent [] = []"
  by (simp add: mostFrequent_def)

lemma keys_mostFrequent:
  "set (map fst (mostFrequent buf)) = set buf \<and> distinct (map fst (mostFrequent buf))"
proof (induction buf rule: rev_induct)
  case Nil
  show ?case by (simp add: mostFrequent_Nil)
next
  case (snoc g buf)
  then show ?case
    by (auto simp: mostFrequent_snoc keys_increment)
qed

lemma map_of_mostFrequent:
  "map_of (mostFrequent buf) k = (if k \<in> set buf then Some (count_list buf k) else None)"
proof (induction buf arbitrary: k rule: rev_induct)
  case Nil
  show ?case by (simp add: mostFrequent_Nil)
next
  case (snoc g buf)
  then show ?case
    by (simp add: mostFrequent_snoc map_of_increment)
qed

lemma entry_count:
  assumes "(k, c) \<in> set (mostFrequent buf)"
  shows "k \<in> set buf \<and> c = count_list buf k"
proof -
  have "distinct (map fst (mostFrequent buf))" using keys_mostFrequent by blast
  with assms have "map_of (mostFrequent buf) k = Some c" by simp
  then show ?thesis by (simp add: map_of_mostFrequent split: if_splits)
qed

lemma first_occurrence:
  "map fst (mostFrequent buf) = p @ r # q \<Longrightarrow> \<exists>pre post. buf = pre @ r # post \<and> set pre = set p"
proof (induction buf arbitrary: q rule: rev_induct)
  case Nil
  then show ?case by (simp add: mostFrequent_Nil)
next
  case (snoc g buf)
  let ?ks = "map fst (mostFrequent buf)"
  show ?case
  proof (cases "g \<in> set ?ks")
    case True
    with snoc.prems have "?ks = p @ r # q" by (simp add: mostFrequent_snoc keys_increment)
    from snoc.IH [OF this] obtain pre post where "buf = pre @ r # post" "set pre = set p" by blast
    then have "buf @ [g] = pre @ r # (post @ [g]) \<and> set pre = set p" by simp
    then show ?thesis by blast
  next
    case False
    with snoc.prems have eq: "?ks @ [g] = p @ r # q" by (simp add: mostFrequent_snoc keys_increment)
    show ?thesis
    proof (cases q rule: rev_cases)
      case Nil
      with eq have "?ks = p" "g = r" by simp_all
      moreover have "set ?ks = set buf" using keys_mostFrequent by blast
      ultimately have "buf @ [g] = buf @ r # [] \<and> set buf = set p" by simp
      then show ?thesis by blast
    next
      case (snoc q' l)
      with eq have "?ks = p @ r # q'" by simp
      from snoc.IH [OF this] obtain pre post where "buf = pre @ r # post" "set pre = set p" by blast
      then have "buf @ [g] = pre @ r # (post @ [g]) \<and> set pre = set p" by simp
      then show ?thesis by blast
    qed
  qed
qed

lemma sort_key_Nil_iff: "sort_key f es = [] \<longleftrightarrow> es = []"
  by (metis length_0_conv length_sort)

lemma hd_insort_key:
  "hd (insort_key f e (h # t)) = (if f e \<le> f h then e else h)"
  by simp

lemma hd_sort_key:
  "es \<noteq> [] \<Longrightarrow> \<exists>p q. es = p @ hd (sort_key f es) # q
      \<and> (\<forall>a\<in>set p. f (hd (sort_key f es)) < f a) \<and> (\<forall>a\<in>set q. f (hd (sort_key f es)) \<le> f a)"
proof (induction es)
  case Nil
  then show ?case by simp
next
  case (Cons e es)
  show ?case
  proof (cases "es = []")
    case True
    then have "e # es = [] @ hd (sort_key f (e # es)) # []" by simp
    then show ?thesis by fastforce
  next
    case False
    then have "sort_key f es \<noteq> []" by (simp add: sort_key_Nil_iff)
    then obtain h t where st: "sort_key f es = h # t"
      by (cases "sort_key f es") auto
    then have hh: "hd (sort_key f es) = h" by simp
    from Cons.IH [OF False] hh obtain p q where pq: "es = p @ h # q"
      "\<forall>a\<in>set p. f h < f a" "\<forall>a\<in>set q. f h \<le> f a" by auto
    have step: "hd (sort_key f (e # es)) = (if f e \<le> f h then e else h)"
      using st by (simp add: hd_insort_key)
    show ?thesis
    proof (cases "f e \<le> f h")
      case True
      have "\<forall>a\<in>set es. f e \<le> f a"
      proof
        fix a assume "a \<in> set es"
        then have "a \<in> set p \<or> a = h \<or> a \<in> set q" using pq(1) by (metis Un_iff set_ConsD set_append)
        then have "f h \<le> f a" using pq(2,3) by auto
        with True show "f e \<le> f a" by simp
      qed
      with True step have "e # es = [] @ hd (sort_key f (e # es)) # es
        \<and> (\<forall>a\<in>set []. f (hd (sort_key f (e # es))) < f a)
        \<and> (\<forall>a\<in>set es. f (hd (sort_key f (e # es))) \<le> f a)" by simp
      then show ?thesis by blast
    next
      case False
      with step have h: "hd (sort_key f (e # es)) = h" by simp
      have "e # es = (e # p) @ h # q" using pq(1) by simp
      moreover have "\<forall>a\<in>set (e # p). f h < f a" using pq(2) False by auto
      ultimately show ?thesis using pq(3) h by metis
    qed
  qed
qed

text \<open>The vote on a buffer that is not empty returns its earliest label of highest count.\<close>

lemma stableGesture_earliest_max:
  assumes "buf \<noteq> []"
  shows "\<exists>r pre post. stableGesture buf = Inr r \<and> buf = pre @ r # post
     \<and> (\<forall>g\<in>set pre. count_list buf g < count_list buf r)
     \<and> (\<forall>g. count_list buf g \<le> count_list buf r)"
proof -
  let ?es = "mostFrequent buf"
  let ?f = "\<lambda>e :: GestureType \<times> nat. - int (snd e)"
  let ?h = "hd (sort_key ?f ?es)"
  have ne: "?es \<noteq> []" using keys_mostFrequent [of buf] assms by auto
  from ne have sne: "sort_key ?f ?es \<noteq> []" by (simp add: sort_key_Nil_iff)
  then have sg: "stableGesture buf = Inr (fst ?h)"
    by (cases "sort_key ?f ?es") (simp_all add: stableGesture_def sortedEntries_def)
  from hd_sort_key [OF ne, of ?f] obtain p q where pq: "?es = p @ ?h # q"
      "\<forall>a\<in>set p. ?f ?h < ?f a" "\<forall>a\<in>set q. ?f ?h \<le> ?f a" by blast
  have cnt: "\<And>a. a \<in> set ?es \<Longrightarrow> fst a \<in> set buf \<and> snd a = count_list buf (fst a)"
    using entry_count [of _ _ buf] by (metis prod.collapse)
  have hin: "?h \<in> set ?es" using pq(1) by (metis in_set_conv_decomp)
  have hc: "snd ?h = count_list buf (fst ?h)" using cnt [OF hin] by simp
  have "map fst ?es = map fst p @ fst ?h # map fst q" using pq(1) by (metis list.simps(9) map_append)
  from first_occurrence [OF this] obtain pre post where
    pp: "buf = pre @ fst ?h # post" "set pre = set (map fst p)" by blast
  have before: "\<forall>g\<in>set pre. count_list buf g < count_list buf (fst ?h)"
  proof
    fix g assume "g \<in> set pre"
    with pp(2) obtain a where a: "a \<in> set p" "g = fst a" by auto
    then have "a \<in> set ?es" using pq(1) by (metis Un_iff set_append)
    from cnt [OF this] a(2) have "snd a = count_list buf g" by simp
    moreover from pq(2) a(1) have "snd a < snd ?h" by simp
    ultimately show "count_list buf g < count_list buf (fst ?h)" using hc by simp
  qed
  have all: "\<forall>g. count_list buf g \<le> count_list buf (fst ?h)"
  proof
    fix g
    show "count_list buf g \<le> count_list buf (fst ?h)"
    proof (cases "g \<in> set buf")
      case False
      then show ?thesis by (simp add: count_list_0_iff)
    next
      case True
      then have "g \<in> set (map fst ?es)" using keys_mostFrequent [of buf] by simp
      then obtain a where a: "a \<in> set ?es" "g = fst a" by auto
      from cnt [OF a(1)] a(2) have ac: "snd a = count_list buf g" by simp
      from a(1) pq(1) have "a \<in> set p \<or> a = ?h \<or> a \<in> set q" by (metis Un_iff set_ConsD set_append)
      then have "snd a \<le> snd ?h" using pq(2,3) by auto
      with ac hc show ?thesis by simp
    qed
  qed
  from sg pp(1) before all show ?thesis by blast
qed

lemmas hands = getDistance_vertical isExtended_exact num_lit_exact fistHand_def fourUpHand_def threeUpHand_def openHand_def
  centre_def raised_def high_def

lemmas vote = update_def pushGesture_def stableGesture_def sortedEntries_def mostFrequent_def
  BUFFER_SIZE_def Let_def

lemmas frames = punchTracker_def emptyFrame_def fistFrame_def noHand_def drawn_def

lemma update_delivers: "\<exists>r. update buf g = (pushGesture buf g, Inr r)"
proof -
  have "pushGesture buf g \<noteq> []"
    by (cases buf) (simp_all add: pushGesture_def BUFFER_SIZE_def Let_def)
  from stableGesture_earliest_max [OF this] show ?thesis
    by (auto simp: update_def Let_def)
qed

lemma detectGesture_returns: "\<exists>g. detectGesture A inp = Inr g"
proof (cases inp)
  case None
  then show ?thesis by (simp add: detectGesture_def)
next
  case (Some ks)
  show ?thesis
  proof (cases "length ks < 21")
    case True
    with Some show ?thesis by (simp add: detectGesture_def)
  next
    case False
    then have "21 \<le> length ks" by simp
    with Some show ?thesis by (simp only: detectGesture_full) blast
  qed
qed

section \<open>Feeding a sequence of raw labels\<close>

lemma pushGesture_length: "length buf \<le> 3 \<Longrightarrow> length (pushGesture buf g) \<le> 3"
  by (simp add: pushGesture_def BUFFER_SIZE_def Let_def)

lemma feed_Cons:
  "feed buf (g # gs) =
     (fst (feed (pushGesture buf g) gs),
      stableGesture (pushGesture buf g) # snd (feed (pushGesture buf g) gs))"
  by (simp add: update_def Let_def split: prod.splits)

lemma feed_buffer:
  "length buf \<le> 3 \<Longrightarrow> fst (feed buf gs) = drop (length (buf @ gs) - 3) (buf @ gs)"
proof (induction gs arbitrary: buf)
  case Nil
  then show ?case by simp
next
  case (Cons g gs)
  have len: "length (pushGesture buf g) \<le> 3" using Cons.prems by (rule pushGesture_length)
  have "fst (feed buf (g # gs)) = fst (feed (pushGesture buf g) gs)"
    by (simp add: feed_Cons del: feed.simps)
  also have "\<dots> = drop (length (pushGesture buf g @ gs) - 3) (pushGesture buf g @ gs)"
    using Cons.IH [OF len] .
  also have "\<dots> = drop (length (buf @ g # gs) - 3) (buf @ g # gs)"
  proof (cases "length buf < 3")
    case True
    then show ?thesis by (simp add: pushGesture_def BUFFER_SIZE_def Let_def)
  next
    case False
    with Cons.prems have l3: "length buf = 3" by simp
    then obtain b bs where b: "buf = b # bs" by (cases buf) auto
    with l3 show ?thesis by (simp add: pushGesture_def BUFFER_SIZE_def Let_def)
  qed
  finally show ?case .
qed

lemma feed_last:
  "gs \<noteq> [] \<Longrightarrow> last (snd (feed buf gs)) = stableGesture (fst (feed buf gs))"
proof (induction gs arbitrary: buf)
  case Nil
  then show ?case by simp
next
  case (Cons g gs)
  show ?case
  proof (cases "gs = []")
    case True
    then show ?thesis by (simp add: update_def Let_def)
  next
    case False
    have "snd (feed (pushGesture buf g) gs) \<noteq> []" using False
      by (cases gs) (simp_all add: feed_Cons del: feed.simps)
    with Cons.IH [OF False, of "pushGesture buf g"] show ?thesis
      by (simp add: feed_Cons del: feed.simps)
  qed
qed

section \<open>One frame\<close>

lemma processResults_noHand:
  "noHand results \<Longrightarrow>
     processResults A t results =
       (t, if drawn t results then Delivered NONE \<lparr>x = 0.5, y = 0.5\<rparr> else Returned)"
  by (auto simp: processResults_def noHand_def drawn_def split: option.splits list.splits)

lemma processResults_hand:
  assumes "multiHandLandmarks results = Some (ls # others)" and "drawn t results" and "9 < length ls"
  shows "\<exists>raw g. detectGesture A (Some ls) = Inr raw
     \<and> update (gestureBuffer t) raw = (pushGesture (gestureBuffer t) raw, Inr g)
     \<and> processResults A t results =
         (t\<lparr>gestureBuffer := pushGesture (gestureBuffer t) raw\<rparr>,
          Delivered g \<lparr>x = x (ls ! 9), y = y (ls ! 9)\<rparr>)"
proof -
  from detectGesture_returns obtain raw where raw: "detectGesture A (Some ls) = Inr raw" by blast
  from update_delivers obtain g where
    g: "update (gestureBuffer t) raw = (pushGesture (gestureBuffer t) raw, Inr g)" by blast
  from assms raw g have "processResults A t results =
         (t\<lparr>gestureBuffer := pushGesture (gestureBuffer t) raw\<rparr>,
          Delivered g \<lparr>x = x (ls ! 9), y = y (ls ! 9)\<rparr>)"
    by (simp add: processResults_def drawn_def item_def)
  with raw g show ?thesis by blast
qed

lemma processResults_delivered_hand:
  assumes "multiHandLandmarks results = Some (ls # others)"
    and "processResults A t results = (t', Delivered g pos)"
  shows "9 < length ls \<and> drawn t results"
  using assms
  by (auto simp: processResults_def drawn_def item_def split: if_splits sum.splits prod.splits)

section \<open>Claims on the classifier\<close>

text \<open>
  Claim C7. For every landmark input with fewer than 21 points, the empty sequence and
  an absent set among them, \<^const>\<open>detectGesture\<close> returns \<open>NONE\<close>; and on no
  input at all does it throw: it always returns a label.
\<close>

theorem detectGesture_fail_soft:
  "detectGesture A None = Inr NONE
   \<and> (length ls < 21 \<longrightarrow> detectGesture A (Some ls) = Inr NONE)
   \<and> (\<exists>g. detectGesture A inp = Inr g)"
  using detectGesture_returns [of A inp] by (simp add: detectGesture_def)

theorem detectGesture_fail_soft_witness:
  "detectGesture exact None = Inr NONE
   \<and> length ([] :: Landmark list) < 21 \<and> detectGesture exact (Some []) = Inr NONE
   \<and> (\<exists>g. detectGesture exact (Some fistHand) = Inr g)"
  using detectGesture_fail_soft [where A = exact and ls = "[]" and inp = "Some fistHand"] by simp

text \<open>
  Claim C6. For every landmark sequence of length at least 21 whose thumb tip and index
  tip are less than 0.045 apart in the plane and whose middle and ring fingers are not
  extended, the classifier returns \<open>PINCH\<close>, whatever the pinky and the index do, and
  also when the pose is a fist by the \<open>PUNCH\<close> test. The distance is the one
  \<^const>\<open>getDistance\<close> computes, 0.045 is the number the literal denotes and extension is
  \<^const>\<open>isExtended\<close>, in the arithmetic the program runs with, whichever it is. The
  witness is a hand all of whose landmarks coincide: it meets both tests and is a pinch.
\<close>

theorem pinch_first:
  assumes "21 \<le> length ls"
    and "getDistance A (ls ! 4) (ls ! 8) < num_lit A 0.045"
    and "\<not> isExtended A (ls ! 12) (ls ! 9)"
    and "\<not> isExtended A (ls ! 16) (ls ! 13)"
  shows "detectGesture A (Some ls) = Inr PINCH"
  using assms by (simp add: detectGesture_full)

theorem pinch_first_witness:
  "21 \<le> length fistHand
   \<and> getDistance exact (fistHand ! 4) (fistHand ! 8) < num_lit exact 0.045
   \<and> \<not> isExtended exact (fistHand ! 12) (fistHand ! 9)
   \<and> \<not> isExtended exact (fistHand ! 16) (fistHand ! 13)
   \<and> list_all (\<lambda>tip. getDistance exact tip (fistHand ! 9) < num_lit exact 0.12)
        [fistHand ! 8, fistHand ! 12, fistHand ! 16, fistHand ! 20]
   \<and> detectGesture exact (Some fistHand) = Inr PINCH"
proof -
  have a: "21 \<le> length fistHand" by (simp add: hands)
  have b: "getDistance exact (fistHand ! 4) (fistHand ! 8) < num_lit exact 0.045" by (simp add: hands)
  have c: "\<not> isExtended exact (fistHand ! 12) (fistHand ! 9)" by (simp add: hands)
  have d: "\<not> isExtended exact (fistHand ! 16) (fistHand ! 13)" by (simp add: hands)
  have e: "list_all (\<lambda>tip. getDistance exact tip (fistHand ! 9) < num_lit exact 0.12)
        [fistHand ! 8, fistHand ! 12, fistHand ! 16, fistHand ! 20]"
    by (simp add: hands)
  from a b c d e pinch_first [OF a b c d] show ?thesis by simp
qed

text \<open>
  Claim C2, as stated: whenever index, middle, ring and pinky are all extended the
  classifier returns \<open>OPEN\<close>. It fails on a hand whose four fingertips are raised by
  1/16 above their joints: all four fingers are extended, but the tips are within 0.12
  of the palm centre, and the \<open>PUNCH\<close> test comes before the \<open>OPEN\<close> test.
\<close>

theorem four_extended_open_counterexample:
  "21 \<le> length fourUpHand
   \<and> isExtended exact (fourUpHand ! 8) (fourUpHand ! 5)
   \<and> isExtended exact (fourUpHand ! 12) (fourUpHand ! 9)
   \<and> isExtended exact (fourUpHand ! 16) (fourUpHand ! 13)
   \<and> isExtended exact (fourUpHand ! 20) (fourUpHand ! 17)
   \<and> detectGesture exact (Some fourUpHand) = Inr PUNCH
   \<and> detectGesture exact (Some fourUpHand) \<noteq> Inr OPEN"
  by (simp add: detectGesture_full hands)

text \<open>
  Claim C2, amended. For every landmark sequence of length at least 21 in which index,
  middle, ring and pinky are each extended and the four fingertips are not all within
  0.12 of the palm centre (landmark 9), the classifier returns \<open>OPEN\<close>. Extension
  is \<^const>\<open>isExtended\<close> and the distances are those of \<^const>\<open>getDistance\<close>, compared
  with the number the literal 0.12 denotes, in the arithmetic the program runs with,
  whichever it is.
\<close>

theorem four_extended_open_unless_fist:
  assumes "21 \<le> length ls"
    and "isExtended A (ls ! 8) (ls ! 5)"
    and "isExtended A (ls ! 12) (ls ! 9)"
    and "isExtended A (ls ! 16) (ls ! 13)"
    and "isExtended A (ls ! 20) (ls ! 17)"
    and "\<not> (getDistance A (ls ! 8) (ls ! 9) < num_lit A 0.12
           \<and> getDistance A (ls ! 12) (ls ! 9) < num_lit A 0.12
           \<and> getDistance A (ls ! 16) (ls ! 9) < num_lit A 0.12
           \<and> getDistance A (ls ! 20) (ls ! 9) < num_lit A 0.12)"
  shows "detectGesture A (Some ls) = Inr OPEN"
  using assms by (simp add: detectGesture_full)

theorem four_extended_open_unless_fist_witness:
  "21 \<le> length openHand
   \<and> isExtended exact (openHand ! 8) (openHand ! 5)
   \<and> isExtended exact (openHand ! 12) (openHand ! 9)
   \<and> isExtended exact (openHand ! 16) (openHand ! 13)
   \<and> isExtended exact (openHand ! 20) (openHand ! 17)
   \<and> \<not> getDistance exact (openHand ! 8) (openHand ! 9) < num_lit exact 0.12
   \<and> detectGesture exact (Some openHand) = Inr OPEN"
proof -
  have a: "21 \<le> length openHand" by (simp add: hands)
  have b: "isExtended exact (openHand ! 8) (openHand ! 5)" by (simp add: hands)
  have c: "isExtended exact (openHand ! 12) (openHand ! 9)" by (simp add: hands)
  have d: "isExtended exact (openHand ! 16) (openHand ! 13)" by (simp add: hands)
  have e: "isExtended exact (openHand ! 20) (openHand ! 17)" by (simp add: hands)
  have f: "\<not> getDistance exact (openHand ! 8) (openHand ! 9) < num_lit exact 0.12" by (simp add: hands)
  then have g: "\<not> (getDistance exact (openHand ! 8) (openHand ! 9) < num_lit exact 0.12
           \<and> getDistance exact (openHand ! 12) (openHand ! 9) < num_lit exact 0.12
           \<and> getDistance exact (openHand ! 16) (openHand ! 9) < num_lit exact 0.12
           \<and> getDistance exact (openHand ! 20) (openHand ! 9) < num_lit exact 0.12)" by simp
  from four_extended_open_unless_fist [OF a b c d e g] a b c d e f show ?thesis by simp
qed

text \<open>
  Claim C3, as stated: whenever the four fingertips are within 0.12 of the palm centre
  and the \<open>PINCH\<close> test fails, the classifier returns \<open>PUNCH\<close>, also against the
  finger counts. It fails on a hand with index, middle and ring raised by 1/16 and the
  pinky down: the three-finger test comes before the \<open>PUNCH\<close> test.
\<close>

theorem fist_punch_counterexample:
  "21 \<le> length threeUpHand
   \<and> getDistance exact (threeUpHand ! 8) (threeUpHand ! 9) < num_lit exact 0.12
   \<and> getDistance exact (threeUpHand ! 12) (threeUpHand ! 9) < num_lit exact 0.12
   \<and> getDistance exact (threeUpHand ! 16) (threeUpHand ! 9) < num_lit exact 0.12
   \<and> getDistance exact (threeUpHand ! 20) (threeUpHand ! 9) < num_lit exact 0.12
   \<and> \<not> (getDistance exact (threeUpHand ! 4) (threeUpHand ! 8) < num_lit exact 0.045
        \<and> \<not> isExtended exact (threeUpHand ! 12) (threeUpHand ! 9)
        \<and> \<not> isExtended exact (threeUpHand ! 16) (threeUpHand ! 13))
   \<and> detectGesture exact (Some threeUpHand) = Inr THREE_FINGERS
   \<and> detectGesture exact (Some threeUpHand) \<noteq> Inr PUNCH"
  by (simp add: detectGesture_full hands)

text \<open>
  Claim C3, amended. For every landmark sequence of length at least 21 where the four
  fingertips are within 0.12 of the palm centre and none of the \<open>PINCH\<close>,
  \<open>THREE_FINGERS\<close> and \<open>TWO_FINGERS\<close> tests holds, the classifier returns
  \<open>PUNCH\<close>, even when all four fingers are extended, which would otherwise be
  \<open>OPEN\<close>. The distances, the literals and the three tests are those the program
  computes, in the arithmetic it runs with, whichever it is.
\<close>

theorem fist_punch_after_finger_counts:
  assumes "21 \<le> length ls"
    and "getDistance A (ls ! 8) (ls ! 9) < num_lit A 0.12"
    and "getDistance A (ls ! 12) (ls ! 9) < num_lit A 0.12"
    and "getDistance A (ls ! 16) (ls ! 9) < num_lit A 0.12"
    and "getDistance A (ls ! 20) (ls ! 9) < num_lit A 0.12"
    and "\<not> (getDistance A (ls ! 4) (ls ! 8) < num_lit A 0.045
            \<and> \<not> isExtended A (ls ! 12) (ls ! 9) \<and> \<not> isExtended A (ls ! 16) (ls ! 13))"
    and "\<not> (isExtended A (ls ! 8) (ls ! 5) \<and> isExtended A (ls ! 12) (ls ! 9)
            \<and> isExtended A (ls ! 16) (ls ! 13) \<and> \<not> isExtended A (ls ! 20) (ls ! 17))"
    and "\<not> (isExtended A (ls ! 8) (ls ! 5) \<and> isExtended A (ls ! 12) (ls ! 9)
            \<and> \<not> isExtended A (ls ! 16) (ls ! 13) \<and> \<not> isExtended A (ls ! 20) (ls ! 17))"
  shows "detectGesture A (Some ls) = Inr PUNCH"
  using assms by (simp add: detectGesture_full)

theorem fist_punch_after_finger_counts_witness:
  "21 \<le> length fourUpHand
   \<and> getDistance exact (fourUpHand ! 8) (fourUpHand ! 9) < num_lit exact 0.12
   \<and> getDistance exact (fourUpHand ! 12) (fourUpHand ! 9) < num_lit exact 0.12
   \<and> getDistance exact (fourUpHand ! 16) (fourUpHand ! 9) < num_lit exact 0.12
   \<and> getDistance exact (fourUpHand ! 20) (fourUpHand ! 9) < num_lit exact 0.12
   \<and> isExtended exact (fourUpHand ! 12) (fourUpHand ! 9)
   \<and> isExtended exact (fourUpHand ! 20) (fourUpHand ! 17)
   \<and> detectGesture exact (Some fourUpHand) = Inr PUNCH"
proof -
  have a: "21 \<le> length fourUpHand" by (simp add: hands)
  have b: "getDistance exact (fourUpHand ! 8) (fourUpHand ! 9) < num_lit exact 0.12" by (simp add: hands)
  have c: "getDistance exact (fourUpHand ! 12) (fourUpHand ! 9) < num_lit exact 0.12" by (simp add: hands)
  have d: "getDistance exact (fourUpHand ! 16) (fourUpHand ! 9) < num_lit exact 0.12" by (simp add: hands)
  have e: "getDistance exact (fourUpHand ! 20) (fourUpHand ! 9) < num_lit exact 0.12" by (simp add: hands)
  have m: "isExtended exact (fourUpHand ! 12) (fourUpHand ! 9)" by (simp add: hands)
  have k: "isExtended exact (fourUpHand ! 20) (fourUpHand ! 17)" by (simp add: hands)
  from m have f: "\<not> (getDistance exact (fourUpHand ! 4) (fourUpHand ! 8) < num_lit exact 0.045
            \<and> \<not> isExtended exact (fourUpHand ! 12) (fourUpHand ! 9)
            \<and> \<not> isExtended exact (fourUpHand ! 16) (fourUpHand ! 13))" by simp
  from k have g: "\<not> (isExtended exact (fourUpHand ! 8) (fourUpHand ! 5)
            \<and> isExtended exact (fourUpHand ! 12) (fourUpHand ! 9)
            \<and> isExtended exact (fourUpHand ! 16) (fourUpHand ! 13)
            \<and> \<not> isExtended exact (fourUpHand ! 20) (fourUpHand ! 17))" by simp
  from k have h: "\<not> (isExtended exact (fourUpHand ! 8) (fourUpHand ! 5)
            \<and> isExtended exact (fourUpHand ! 12) (fourUpHand ! 9)
            \<and> \<not> isExtended exact (fourUpHand ! 16) (fourUpHand ! 13)
            \<and> \<not> isExtended exact (fourUpHand ! 20) (fourUpHand ! 17))" by simp
  from fist_punch_after_finger_counts [OF a b c d e f g h] a b c d e m k show ?thesis by simp
qed

section \<open>Claims on the stabilizer\<close>

text \<open>
  Claim C5. Each update appends the new label, drops the oldest one when the buffer
  has grown beyond 3, and returns a label of the buffer whose number of occurrences
  there no label exceeds; it never throws. Fed to an empty buffer,
  \<open>[PUNCH, PUNCH, OPEN]\<close> ends on \<open>PUNCH\<close> and \<open>[PUNCH, OPEN, OPEN]\<close> on \<open>OPEN\<close>.
\<close>

theorem update_majority:
  assumes "update buf raw = (buf', out)"
  shows "buf' = (if length (buf @ [raw]) > 3 then tl (buf @ [raw]) else buf @ [raw])
    \<and> (\<exists>r. out = Inr r \<and> r \<in> set buf' \<and> (\<forall>g. count_list buf' g \<le> count_list buf' r))
    \<and> snd (feed [] [PUNCH, PUNCH, OPEN]) = [Inr PUNCH, Inr PUNCH, Inr PUNCH]
    \<and> snd (feed [] [PUNCH, OPEN, OPEN]) = [Inr PUNCH, Inr PUNCH, Inr OPEN]"
proof -
  from assms have b: "buf' = pushGesture buf raw" and o: "out = stableGesture buf'"
    by (auto simp: update_def Let_def)
  have ne: "buf' \<noteq> []" unfolding b by (cases buf) (simp_all add: pushGesture_def BUFFER_SIZE_def Let_def)
  from stableGesture_earliest_max [OF ne] o
  have "\<exists>r. out = Inr r \<and> r \<in> set buf' \<and> (\<forall>g. count_list buf' g \<le> count_list buf' r)"
    by (metis in_set_conv_decomp)
  moreover have "buf' = (if length (buf @ [raw]) > 3 then tl (buf @ [raw]) else buf @ [raw])"
    unfolding b by (simp add: pushGesture_def BUFFER_SIZE_def Let_def)
  moreover have "snd (feed [] [PUNCH, PUNCH, OPEN]) = [Inr PUNCH, Inr PUNCH, Inr PUNCH]"
    by (simp add: vote)
  moreover have "snd (feed [] [PUNCH, OPEN, OPEN]) = [Inr PUNCH, Inr PUNCH, Inr OPEN]"
    by (simp add: vote)
  ultimately show ?thesis by simp
qed

theorem update_majority_witness:
  "update [PUNCH, PUNCH, OPEN] OPEN = ([PUNCH, OPEN, OPEN], Inr OPEN)
   \<and> (\<forall>g. count_list [PUNCH, OPEN, OPEN] g \<le> count_list [PUNCH, OPEN, OPEN] OPEN)"
proof -
  have u: "update [PUNCH, PUNCH, OPEN] OPEN = ([PUNCH, OPEN, OPEN], Inr OPEN)" by (simp add: vote)
  from update_majority [OF u] u show ?thesis by simp
qed

text \<open>
  Claim C4. The label an update returns is the earliest label of highest count: the
  buffer splits at its first occurrence, every label before it occurs strictly less
  often, and no label occurs more often. So of the labels that tie for the highest
  count, the one that comes first in the buffer wins. Fed to an empty buffer,
  \<open>[PUNCH, OPEN, PINCH]\<close> yields \<open>PUNCH\<close> at every step.
\<close>

theorem update_tie_break_earliest:
  assumes "update buf raw = (buf', out)"
  shows "(\<exists>r pre post. out = Inr r \<and> buf' = pre @ r # post \<and> r \<notin> set pre
             \<and> (\<forall>g\<in>set pre. count_list buf' g < count_list buf' r)
             \<and> (\<forall>g. count_list buf' g \<le> count_list buf' r))
         \<and> snd (feed [] [PUNCH, OPEN, PINCH]) = [Inr PUNCH, Inr PUNCH, Inr PUNCH]"
proof -
  from assms have b: "buf' = pushGesture buf raw" and o: "out = stableGesture buf'"
    by (auto simp: update_def Let_def)
  have ne: "buf' \<noteq> []" unfolding b by (cases buf) (simp_all add: pushGesture_def BUFFER_SIZE_def Let_def)
  from stableGesture_earliest_max [OF ne] o obtain r pre post where
    r: "out = Inr r" "buf' = pre @ r # post"
       "\<forall>g\<in>set pre. count_list buf' g < count_list buf' r"
       "\<forall>g. count_list buf' g \<le> count_list buf' r" by auto
  from r(3) have "r \<notin> set pre" by auto
  with r have "\<exists>r pre post. out = Inr r \<and> buf' = pre @ r # post \<and> r \<notin> set pre
             \<and> (\<forall>g\<in>set pre. count_list buf' g < count_list buf' r)
             \<and> (\<forall>g. count_list buf' g \<le> count_list buf' r)" by blast
  moreover have "snd (feed [] [PUNCH, OPEN, PINCH]) = [Inr PUNCH, Inr PUNCH, Inr PUNCH]"
    by (simp add: vote)
  ultimately show ?thesis by simp
qed

theorem update_tie_break_earliest_witness:
  "update [OPEN, PINCH] PUNCH = ([OPEN, PINCH, PUNCH], Inr OPEN)
   \<and> update [NONE, OPEN, PINCH] PINCH = ([OPEN, PINCH, PINCH], Inr PINCH)"
proof -
  have u: "update [OPEN, PINCH] PUNCH = ([OPEN, PINCH, PUNCH], Inr OPEN)" by (simp add: vote)
  have v: "update [NONE, OPEN, PINCH] PINCH = ([OPEN, PINCH, PINCH], Inr PINCH)" by (simp add: vote)
  from update_tie_break_earliest [OF u] u v show ?thesis by simp
qed

text \<open>
  Claim C8. After the raw labels \<open>gs\<close> have been fed to the empty buffer, the buffer
  is the last \<open>min (length gs) 3\<close> of them, in their order; and the last output is the
  vote on these, so it depends on nothing older than the three most recent labels.
\<close>

theorem buffer_last_three: 
  "fst (feed [] gs) = drop (length gs - 3) gs
   \<and> length (fst (feed [] gs)) = min (length gs) 3
   \<and> (gs \<noteq> [] \<longrightarrow> last (snd (feed [] gs)) = stableGesture (drop (length gs - 3) gs))"
proof -
  have a: "fst (feed [] gs) = drop (length gs - 3) gs" using feed_buffer [of "[]" gs] by simp
  then have b: "length (fst (feed [] gs)) = min (length gs) 3" by auto
  from a feed_last [of gs "[]"] have "gs \<noteq> [] \<longrightarrow> last (snd (feed [] gs)) = stableGesture (drop (length gs - 3) gs)"
    by simp
  with a b show ?thesis by simp
qed

theorem buffer_last_three_witness:
  "fst (feed [] [PUNCH, PUNCH, PUNCH, OPEN, OPEN]) = [PUNCH, OPEN, OPEN]
   \<and> last (snd (feed [] [PUNCH, PUNCH, PUNCH, OPEN, OPEN])) = stableGesture [PUNCH, OPEN, OPEN]
   \<and> stableGesture [PUNCH, OPEN, OPEN] = Inr OPEN"
proof -
  have "stableGesture [PUNCH, OPEN, OPEN] = Inr OPEN" by (simp add: vote)
  with buffer_last_three [of "[PUNCH, PUNCH, PUNCH, OPEN, OPEN]"] show ?thesis by simp
qed

section \<open>Claims on a frame\<close>

text \<open>
  Claim C9. On a frame with a hand, whatever is delivered carries as its position the
  \<open>x\<close> and \<open>y\<close> of landmark 9 of that frame's hand; and a frame that passes the
  canvas guards with a hand of at least ten landmarks does deliver.
\<close>

theorem anchor_is_palm_center:
  assumes "multiHandLandmarks results = Some (ls # others)"
  shows "(\<forall>t' g pos. processResults A t results = (t', Delivered g pos)
            \<longrightarrow> 9 < length ls \<and> pos = \<lparr>x = x (ls ! 9), y = y (ls ! 9)\<rparr>)
       \<and> (drawn t results \<and> 9 < length ls
            \<longrightarrow> (\<exists>g. snd (processResults A t results) = Delivered g \<lparr>x = x (ls ! 9), y = y (ls ! 9)\<rparr>))"
proof -
  have "9 < length ls \<and> pos = \<lparr>x = x (ls ! 9), y = y (ls ! 9)\<rparr>"
    if d: "processResults A t results = (t', Delivered g pos)" for t' g pos
  proof -
    from processResults_delivered_hand [OF assms d] have l: "9 < length ls" "drawn t results" by simp_all
    from processResults_hand [OF assms l(2) l(1), where A = A] d l(1) show ?thesis by auto
  qed
  moreover have "\<exists>g. snd (processResults A t results) = Delivered g \<lparr>x = x (ls ! 9), y = y (ls ! 9)\<rparr>"
    if "drawn t results" "9 < length ls"
    using processResults_hand [OF assms that, where A = A] by auto
  ultimately show ?thesis by blast
qed

theorem anchor_is_palm_center_witness:
  "multiHandLandmarks fistFrame = Some (fistHand # [])
   \<and> drawn punchTracker fistFrame \<and> 9 < length fistHand
   \<and> processResults exact punchTracker fistFrame =
       (punchTracker\<lparr>gestureBuffer := [PUNCH, PUNCH, PINCH]\<rparr>, Delivered PUNCH \<lparr>x = 1/2, y = 1/2\<rparr>)
   \<and> \<lparr>x = x (fistHand ! 9), y = y (fistHand ! 9)\<rparr> = \<lparr>x = 1/2, y = 1/2\<rparr>"
proof -
  have m: "multiHandLandmarks fistFrame = Some (fistHand # [])" by (simp add: frames)
  have d: "detectGesture exact (Some fistHand) = Inr PINCH"
    by (simp add: detectGesture_full hands)
  have l: "length fistHand = 21" and n: "fistHand ! 9 = centre" by (simp_all add: fistHand_def)
  have p: "processResults exact punchTracker fistFrame =
       (punchTracker\<lparr>gestureBuffer := [PUNCH, PUNCH, PINCH]\<rparr>, Delivered PUNCH \<lparr>x = 1/2, y = 1/2\<rparr>)"
    by (simp add: processResults_def d item_def l n vote frames centre_def)
  have e: "\<lparr>x = x (fistHand ! 9), y = y (fistHand ! 9)\<rparr> = \<lparr>x = 1/2, y = 1/2\<rparr>" by (simp add: hands)
  have dr: "drawn punchTracker fistFrame \<and> 9 < length fistHand" by (simp add: frames hands)
  from anchor_is_palm_center [OF m, where A = exact and t = punchTracker] m p e dr show ?thesis by simp
qed

text \<open>
  Claim C10. A frame without a hand leaves the gesture buffer as it was, and when it
  passes the canvas guards it delivers exactly \<open>NONE\<close> with the position
  \<open>(0.5, 0.5)\<close>: neither the append nor the vote takes place.
\<close>

theorem no_hand_frame_effect:
  assumes "noHand results"
  shows "gestureBuffer (fst (processResults A t results)) = gestureBuffer t
       \<and> (drawn t results
            \<longrightarrow> processResults A t results = (t, Delivered NONE \<lparr>x = 0.5, y = 0.5\<rparr>))"
  using assms by (simp add: processResults_noHand)

theorem no_hand_frame_effect_witness:
  "noHand emptyFrame \<and> drawn punchTracker emptyFrame
   \<and> processResults exact punchTracker emptyFrame = (punchTracker, Delivered NONE \<lparr>x = 0.5, y = 0.5\<rparr>)
   \<and> gestureBuffer (fst (processResults exact punchTracker emptyFrame)) = [PUNCH, PUNCH, PUNCH]"
proof -
  have n: "noHand emptyFrame" by (simp add: frames)
  have d: "drawn punchTracker emptyFrame" by (simp add: frames)
  have b: "gestureBuffer punchTracker = [PUNCH, PUNCH, PUNCH]" by (simp add: frames)
  from no_hand_frame_effect [OF n, where A = exact and t = punchTracker] n d b show ?thesis by simp
qed

text \<open>
  Claim C1, as stated: on a frame without a hand the stabilizer is fed \<open>NONE\<close>, which
  is appended to the buffer and takes part in the vote. With the buffer
  \<open>[PUNCH, PUNCH, PUNCH]\<close> that update would leave \<open>[PUNCH, PUNCH, NONE]\<close> and return
  \<open>PUNCH\<close>; the frame delivers \<open>NONE\<close> and the buffer stays as it was.
\<close>

theorem no_hand_vote_counterexample:
  "noHand emptyFrame
   \<and> update (gestureBuffer punchTracker) NONE = ([PUNCH, PUNCH, NONE], Inr PUNCH)
   \<and> snd (processResults exact punchTracker emptyFrame) = Delivered NONE \<lparr>x = 0.5, y = 0.5\<rparr>
   \<and> gestureBuffer (fst (processResults exact punchTracker emptyFrame)) = [PUNCH, PUNCH, PUNCH]"
  by (simp add: processResults_def vote frames)

text \<open>
  Claim C1, amended. On a frame without a hand the stabilizer is not run: the frame
  delivers \<open>NONE\<close> at once, whatever the buffer holds, and takes no part in any later
  vote: the frame after it is processed as if the frame without a hand had not been.
\<close>

theorem no_hand_bypasses_stabilizer:
  assumes "noHand results"
  shows "(drawn t results \<longrightarrow> snd (processResults A t results) = Delivered NONE \<lparr>x = 0.5, y = 0.5\<rparr>)
       \<and> processResults A (fst (processResults A t results)) later = processResults A t later"
  using assms by (simp add: processResults_noHand)

theorem no_hand_bypasses_stabilizer_witness:
  "noHand emptyFrame \<and> drawn punchTracker emptyFrame
   \<and> snd (processResults exact punchTracker emptyFrame) = Delivered NONE \<lparr>x = 0.5, y = 0.5\<rparr>
   \<and> processResults exact (fst (processResults exact punchTracker emptyFrame)) fistFrame
       = processResults exact punchTracker fistFrame"
proof -
  have n: "noHand emptyFrame" by (simp add: frames)
  have d: "drawn punchTracker emptyFrame" by (simp add: frames)
  from no_hand_bypasses_stabilizer [OF n, where A = exact and t = punchTracker and later = fistFrame] n d show ?thesis by simp
qed

end
